theory Spec2Isabelle
  imports
    Main
    "HOL-Library.AList"
    "HOL-Library.Char_ord"
    "HOL-Library.List_Lexorder"
    "HOL-Library.Multiset"
    "HOL-Library.Sublist"
begin

section \<open>Go maps behind references\<close>

text \<open>
  \<^verbatim>\<open>model/metric.go\<close> declares \<^verbatim>\<open>type Metric LabelSet\<close>, and a label set is a Go
  \<^verbatim>\<open>map[LabelName]LabelValue\<close>. A Go map value is a reference: it is either \<^verbatim>\<open>nil\<close>
  or it points to a map object that every copy of the value shares. The store is
  therefore explicit. A map object is kept as the list of its entries; the order of
  the list stands for the order in which \<^verbatim>\<open>range\<close> happens to yield them, which Go
  leaves unspecified, so results about rendering are stated for every such order.
  Label names and values are Go strings, that is, byte sequences.
\<close>

type_synonym LabelName = string
type_synonym LabelValue = string
type_synonym entries = "(LabelName \<times> LabelValue) list"

datatype mapref = NilMap | MapRef nat

type_synonym LabelSet = mapref
type_synonym Metric = mapref

type_synonym heap = "entries list"

datatype error = AssignNilMap | MakeSliceCap

text \<open>A reference is usable in a store when it is \<^verbatim>\<open>nil\<close> or points to an allocated object.\<close>

definition valid_ref :: "heap \<Rightarrow> mapref \<Rightarrow> bool" where
  "valid_ref h m = (case m of NilMap \<Rightarrow> True | MapRef a \<Rightarrow> a < length h)"

text \<open>Keys of a map object are unique.\<close>

definition heap_ok :: "heap \<Rightarrow> bool" where
  "heap_ok h = list_all (\<lambda>cell. distinct (map fst cell)) h"

text \<open>\<^verbatim>\<open>for k, v := range m\<close>: the entries in the order the iteration yields; none for \<^verbatim>\<open>nil\<close>.\<close>

definition map_range :: "heap \<Rightarrow> mapref \<Rightarrow> entries" where
  "map_range h m = (case m of NilMap \<Rightarrow> [] | MapRef a \<Rightarrow> h ! a)"

text \<open>\<^verbatim>\<open>v, ok := m[k]\<close>; reading a \<^verbatim>\<open>nil\<close> map finds nothing.\<close>

definition map_lookup :: "heap \<Rightarrow> mapref \<Rightarrow> LabelName \<Rightarrow> LabelValue option" where
  "map_lookup h m k = map_of (map_range h m) k"

text \<open>\<^verbatim>\<open>len(m)\<close>, a Go \<^verbatim>\<open>int\<close>.\<close>

definition map_len :: "heap \<Rightarrow> mapref \<Rightarrow> int" where
  "map_len h m = int (length (map_range h m))"

text \<open>\<^verbatim>\<open>m[k] = v\<close>; assignment to an entry of a \<^verbatim>\<open>nil\<close> map panics.\<close>

definition map_assign :: "heap \<Rightarrow> mapref \<Rightarrow> LabelName \<Rightarrow> LabelValue \<Rightarrow> error + heap" where
  "map_assign h m k v =
     (case m of
        NilMap \<Rightarrow> Inl AssignNilMap
      | MapRef a \<Rightarrow> Inr (h[a := AList.update k v (h ! a)]))"

text \<open>\<^verbatim>\<open>delete(m, k)\<close>; a no-op on a \<^verbatim>\<open>nil\<close> map and on an absent key.\<close>

definition map_delete :: "heap \<Rightarrow> mapref \<Rightarrow> LabelName \<Rightarrow> heap" where
  "map_delete h m k =
     (case m of
        NilMap \<Rightarrow> h
      | MapRef a \<Rightarrow> h[a := AList.delete k (h ! a)])"

text \<open>The composite literal \<^verbatim>\<open>Metric{}\<close>: a fresh, empty, non-nil map object.\<close>

definition map_make :: "heap \<Rightarrow> heap \<times> mapref" where
  "map_make h = (h @ [[]], MapRef (length h))"

text \<open>The label mapping that a holder of the reference observes.\<close>

definition labels :: "heap \<Rightarrow> mapref \<Rightarrow> (LabelName \<rightharpoonup> LabelValue)" where
  "labels h m = map_of (map_range h m)"

section \<open>Collaborators outside \<^verbatim>\<open>metric.go\<close>\<close>

text \<open>
  Modelled from the spec: the constant \<^verbatim>\<open>MetricNameLabel\<close> is declared in another file of
  the package. The spec calls it the reserved metric-name label and writes it
  \<^verbatim>\<open>__name__\<close> in its rendering examples.
\<close>

definition MetricNameLabel :: LabelName where
  "MetricNameLabel = ''__name__''"

text \<open>
  Modelled from the spec: \<^verbatim>\<open>LabelSet.Equal\<close> is declared in another file of the package.
  The spec: two label sets are equal iff every label name maps to the same value in
  both and neither has labels absent in the other.
\<close>

definition LabelSet_Equal :: "heap \<Rightarrow> LabelSet \<Rightarrow> LabelSet \<Rightarrow> bool" where
  "LabelSet_Equal h ls o' =
     list_all (\<lambda>k. map_lookup h ls k = map_lookup h o' k)
       (map fst (map_range h ls) @ map fst (map_range h o'))"

text \<open>
  \<^verbatim>\<open>strings.Join\<close> and \<^verbatim>\<open>sort.Strings\<close> of the Go standard library. Go compares strings
  byte by byte, which is the lexicographic order on character lists used here, so
  \<^verbatim>\<open>sort.Strings\<close> is \<^const>\<open>sort\<close>.
\<close>

fun Join :: "string list \<Rightarrow> string \<Rightarrow> string" where
  "Join [] sep = []"
| "Join [s] sep = s"
| "Join (s # t # ss) sep = s @ sep @ Join (t # ss) sep"

text \<open>
  The verb \<^verbatim>\<open>%q\<close> applies \<^verbatim>\<open>strconv.Quote\<close>. The rendering functions take the quoting
  function as a parameter \<open>q\<close>. For evaluating examples, \<open>Quote_ascii\<close> is
  \<^verbatim>\<open>strconv.Quote\<close> on strings of bytes below \<^verbatim>\<open>0x80\<close>: printable ASCII is kept, the
  double quote and the backslash get a backslash, the control characters with a
  short escape use it, and every other byte is written \<^verbatim>\<open>\x\<close> and two lower-case
  hexadecimal digits (which is also what Go writes for a byte that is not valid
  UTF-8; valid multi-byte sequences are outside this function's domain).
\<close>

definition lowerhex :: "nat \<Rightarrow> char" where
  "lowerhex n = ''0123456789abcdef'' ! (n mod 16)"

definition quote_byte :: "char \<Rightarrow> string" where
  "quote_byte c =
     (if c = CHR 0x22 \<or> c = CHR 0x5C then [CHR 0x5C, c]
      else if CHR 0x20 \<le> c \<and> c < CHR 0x7F then [c]
      else if c = CHR 0x07 then [CHR 0x5C, CHR ''a'']
      else if c = CHR 0x08 then [CHR 0x5C, CHR ''b'']
      else if c = CHR 0x0C then [CHR 0x5C, CHR ''f'']
      else if c = CHR 0x0A then [CHR 0x5C, CHR ''n'']
      else if c = CHR 0x0D then [CHR 0x5C, CHR ''r'']
      else if c = CHR 0x09 then [CHR 0x5C, CHR ''t'']
      else if c = CHR 0x0B then [CHR 0x5C, CHR ''v'']
      else [CHR 0x5C, CHR ''x'', lowerhex (of_char c div 16), lowerhex (of_char c mod 16)])"

definition Quote_ascii :: "string \<Rightarrow> string" where
  "Quote_ascii s = [CHR 0x22] @ concat (map quote_byte s) @ [CHR 0x22]"

section \<open>Metric\<close>

text \<open>\<^verbatim>\<open>func (m Metric) Equal(o Metric) bool\<close> delegates to the label set.\<close>

definition Metric_Equal :: "heap \<Rightarrow> Metric \<Rightarrow> Metric \<Rightarrow> bool" where
  "Metric_Equal h m o' = LabelSet_Equal h m o'"

text \<open>
  \<^verbatim>\<open>func (m Metric) Clone() Metric\<close>. The loop assigns every entry of \<open>m\<close> to the
  fresh map; \<open>Clone_loop\<close> is the loop over the entries that \<^verbatim>\<open>range m\<close> yields.
\<close>

fun Clone_loop :: "entries \<Rightarrow> Metric \<Rightarrow> heap \<Rightarrow> error + heap" where
  "Clone_loop [] clone h = Inr h"
| "Clone_loop ((k, v) # kvs) clone h =
     (case map_assign h clone k v of
        Inl e \<Rightarrow> Inl e
      | Inr h' \<Rightarrow> Clone_loop kvs clone h')"

definition Metric_Clone :: "heap \<Rightarrow> Metric \<Rightarrow> error + (heap \<times> Metric)" where
  "Metric_Clone h m =
     (let (h0, clone) = map_make h in
      case Clone_loop (map_range h m) clone h0 of
        Inl e \<Rightarrow> Inl e
      | Inr h' \<Rightarrow> Inr (h', clone))"

text \<open>
  \<^verbatim>\<open>func (m Metric) String() string\<close>. \<open>Sprintf_label\<close> is
  \<^verbatim>\<open>fmt.Sprintf("%s=%q", label, value)\<close>, \<open>String_loop\<close> the loop that appends the
  rendered labels other than the metric name, and \<^verbatim>\<open>make\<close> panics on a negative
  capacity.
\<close>

definition Sprintf_label :: "(LabelValue \<Rightarrow> string) \<Rightarrow> LabelName \<Rightarrow> LabelValue \<Rightarrow> string" where
  "Sprintf_label q label value = label @ ''='' @ q value"

fun String_loop :: "(LabelValue \<Rightarrow> string) \<Rightarrow> entries \<Rightarrow> string list \<Rightarrow> string list" where
  "String_loop q [] labelStrings = labelStrings"
| "String_loop q ((label, value) # kvs) labelStrings =
     (if label \<noteq> MetricNameLabel
      then String_loop q kvs (labelStrings @ [Sprintf_label q label value])
      else String_loop q kvs labelStrings)"

definition Metric_String :: "(LabelValue \<Rightarrow> string) \<Rightarrow> heap \<Rightarrow> Metric \<Rightarrow> error + string" where
  "Metric_String q h m =
     (let r = map_lookup h m MetricNameLabel;
          hasName = (r \<noteq> None);
          metricName = (case r of None \<Rightarrow> [] | Some v \<Rightarrow> v);
          numLabels = (if \<not> hasName then map_len h m else map_len h m - 1)
      in if numLabels < 0 then Inl MakeSliceCap
         else
           let labelStrings = String_loop q (map_range h m) []
           in if numLabels = 0
              then (if hasName then Inr metricName else Inr ''{}'')
              else Inr (metricName @ ''{'' @ Join (sort labelStrings) '', '' @ ''}''))"

section \<open>COWMetric\<close>

record COWMetric =
  Copied :: bool
  Metric :: Metric

text \<open>\<^verbatim>\<open>func (m *COWMetric) doCOW()\<close>\<close>

definition COWMetric_doCOW :: "heap \<Rightarrow> COWMetric \<Rightarrow> error + (heap \<times> COWMetric)" where
  "COWMetric_doCOW h m =
     (if \<not> Copied m
      then (case Metric_Clone h (Metric m) of
              Inl e \<Rightarrow> Inl e
            | Inr (h', clone) \<Rightarrow> Inr (h', m\<lparr>Metric := clone, Copied := True\<rparr>))
      else Inr (h, m))"

text \<open>\<^verbatim>\<open>func (m *COWMetric) Set(ln LabelName, lv LabelValue)\<close>\<close>

definition COWMetric_Set ::
  "heap \<Rightarrow> COWMetric \<Rightarrow> LabelName \<Rightarrow> LabelValue \<Rightarrow> error + (heap \<times> COWMetric)" where
  "COWMetric_Set h m ln lv =
     (case COWMetric_doCOW h m of
        Inl e \<Rightarrow> Inl e
      | Inr (h1, m1) \<Rightarrow>
          (case map_assign h1 (Metric m1) ln lv of
             Inl e \<Rightarrow> Inl e
           | Inr h2 \<Rightarrow> Inr (h2, m1)))"

text \<open>\<^verbatim>\<open>func (m *COWMetric) Del(ln LabelName)\<close>\<close>

definition COWMetric_Del :: "heap \<Rightarrow> COWMetric \<Rightarrow> LabelName \<Rightarrow> error + (heap \<times> COWMetric)" where
  "COWMetric_Del h m ln =
     (case COWMetric_doCOW h m of
        Inl e \<Rightarrow> Inl e
      | Inr (h1, m1) \<Rightarrow> Inr (map_delete h1 (Metric m1) ln, m1))"

text \<open>\<^verbatim>\<open>func (m COWMetric) String() string\<close>\<close>

definition COWMetric_String :: "(LabelValue \<Rightarrow> string) \<Rightarrow> heap \<Rightarrow> COWMetric \<Rightarrow> error + string" where
  "COWMetric_String q h m = Metric_String q h (Metric m)"

text \<open>
  \<^verbatim>\<open>json.Marshal\<close> of the standard library on a value of map type with string keys and
  string values: a \<^verbatim>\<open>nil\<close> map is encoded as \<^verbatim>\<open>null\<close>, any other map as an object
  whose members are sorted by key, written \<^verbatim>\<open>key:value\<close> and separated by commas.
  The encoding of a string as a JSON string literal is the parameter \<open>enc\<close>;
  \<open>json_string_plain\<close> is that encoding on strings none of whose characters JSON
  escapes, for evaluating examples. For this type the encoder reports no error.
\<close>

definition json_member :: "(string \<Rightarrow> string) \<Rightarrow> LabelName \<times> LabelValue \<Rightarrow> string" where
  "json_member enc kv = enc (fst kv) @ '':'' @ enc (snd kv)"

definition json_Marshal :: "(string \<Rightarrow> string) \<Rightarrow> heap \<Rightarrow> Metric \<Rightarrow> error + string" where
  "json_Marshal enc h m =
     (case m of
        NilMap \<Rightarrow> Inr ''null''
      | MapRef a \<Rightarrow>
          Inr (''{'' @ Join (map (json_member enc) (sort_key fst (map_range h m))) '','' @ ''}''))"

definition json_string_plain :: "string \<Rightarrow> string" where
  "json_string_plain s = [CHR 0x22] @ s @ [CHR 0x22]"

text \<open>\<^verbatim>\<open>func (m COWMetric) MarshalJSON() ([]byte, error)\<close>\<close>

definition COWMetric_MarshalJSON :: "(string \<Rightarrow> string) \<Rightarrow> heap \<Rightarrow> COWMetric \<Rightarrow> error + string" where
  "COWMetric_MarshalJSON enc h m = json_Marshal enc h (Metric m)"

section \<open>Sequences of operations\<close>

text \<open>
  A holder of a Metric can edit it directly, with \<^verbatim>\<open>m[k] = v\<close> (an insertion or an
  overwrite) and \<^verbatim>\<open>delete(m, k)\<close>; \<open>apply_muts\<close> runs such edits in order and stops
  at the first panic.
\<close>

datatype mutation = Assign LabelName LabelValue | Delete LabelName

fun apply_mut :: "heap \<Rightarrow> Metric \<Rightarrow> mutation \<Rightarrow> error + heap" where
  "apply_mut h m (Assign k v) = map_assign h m k v"
| "apply_mut h m (Delete k) = Inr (map_delete h m k)"

fun apply_muts :: "heap \<Rightarrow> Metric \<Rightarrow> mutation list \<Rightarrow> error + heap" where
  "apply_muts h m [] = Inr h"
| "apply_muts h m (mu # mus) =
     (case apply_mut h m mu of
        Inl e \<Rightarrow> Inl e
      | Inr h' \<Rightarrow> apply_muts h' m mus)"

text \<open>
  The four methods of a COWMetric as operations of a caller on one holder;
  \<open>COWMetric_run\<close> calls them in order and stops at the first panic. The two
  read-only methods have value receivers and return their rendering, which the run
  drops.
\<close>

datatype cow_op =
    OpSet LabelName LabelValue
  | OpDel LabelName
  | OpString
  | OpMarshalJSON

fun COWMetric_apply ::
  "(LabelValue \<Rightarrow> string) \<Rightarrow> (string \<Rightarrow> string) \<Rightarrow> heap \<Rightarrow> COWMetric \<Rightarrow> cow_op
     \<Rightarrow> error + (heap \<times> COWMetric)" where
  "COWMetric_apply q enc h m (OpSet ln lv) = COWMetric_Set h m ln lv"
| "COWMetric_apply q enc h m (OpDel ln) = COWMetric_Del h m ln"
| "COWMetric_apply q enc h m OpString =
     (case COWMetric_String q h m of Inl e \<Rightarrow> Inl e | Inr s \<Rightarrow> Inr (h, m))"
| "COWMetric_apply q enc h m OpMarshalJSON =
     (case COWMetric_MarshalJSON enc h m of Inl e \<Rightarrow> Inl e | Inr s \<Rightarrow> Inr (h, m))"

fun COWMetric_run ::
  "(LabelValue \<Rightarrow> string) \<Rightarrow> (string \<Rightarrow> string) \<Rightarrow> heap \<Rightarrow> COWMetric \<Rightarrow> cow_op list
     \<Rightarrow> error + (heap \<times> COWMetric)" where
  "COWMetric_run q enc h m [] = Inr (h, m)"
| "COWMetric_run q enc h m (op # ops) =
     (case COWMetric_apply q enc h m op of
        Inl e \<Rightarrow> Inl e
      | Inr (h', m') \<Rightarrow> COWMetric_run q enc h' m' ops)"

fun is_mutation :: "cow_op \<Rightarrow> bool" where
  "is_mutation (OpSet ln lv) = True"
| "is_mutation (OpDel ln) = True"
| "is_mutation OpString = False"
| "is_mutation OpMarshalJSON = False"

text \<open>What an operation is meant to do to the label mapping of the holder.\<close>

fun op_effect :: "(LabelName \<rightharpoonup> LabelValue) \<Rightarrow> cow_op \<Rightarrow> (LabelName \<rightharpoonup> LabelValue)" where
  "op_effect f (OpSet ln lv) = f(ln \<mapsto> lv)"
| "op_effect f (OpDel ln) = f(ln := None)"
| "op_effect f OpString = f"
| "op_effect f OpMarshalJSON = f"

section \<open>The rendering as the specification words it\<close>

text \<open>
  The specification of \<^verbatim>\<open>String()\<close>, for comparison with the code: the bare name
  when the metric name is the only label, \<^verbatim>\<open>{}\<close> for the empty label set, and
  otherwise the name followed by the other labels in braces, sorted by label name.
\<close>

definition other_labels :: "entries \<Rightarrow> entries" where
  "other_labels xs = filter (\<lambda>kv. fst kv \<noteq> MetricNameLabel) xs"

definition render_label :: "(LabelValue \<Rightarrow> string) \<Rightarrow> LabelName \<times> LabelValue \<Rightarrow> string" where
  "render_label q kv = fst kv @ ''='' @ q (snd kv)"

definition name_of :: "entries \<Rightarrow> string" where
  "name_of xs = (case map_of xs MetricNameLabel of None \<Rightarrow> [] | Some n \<Rightarrow> n)"

definition String_spec :: "(LabelValue \<Rightarrow> string) \<Rightarrow> entries \<Rightarrow> string" where
  "String_spec q xs =
     (if map_of xs MetricNameLabel \<noteq> None \<and> other_labels xs = [] then name_of xs
      else if xs = [] then ''{}''
      else name_of xs @ ''{''
             @ Join (map (render_label q) (sort_key fst (other_labels xs))) '', '' @ ''}'')"

text \<open>No label name other than the metric name is a proper prefix of another one.\<close>

definition prefix_free :: "entries \<Rightarrow> bool" where
  "prefix_free xs =
     list_all (\<lambda>k. list_all (\<lambda>k'. \<not> strict_prefix k k') (map fst (other_labels xs)))
       (map fst (other_labels xs))"

section \<open>The store, cloning and copy-on-write\<close>

lemma valid_ref_Nil: "valid_ref h NilMap"
  by (simp add: valid_ref_def)

lemma map_range_append: "valid_ref h y \<Longrightarrow> map_range (h @ cs) y = map_range h y"
  by (cases y) (simp_all add: valid_ref_def map_range_def nth_append)

lemma map_range_update_other:
  "y \<noteq> MapRef a \<Longrightarrow> map_range (h[a := c]) y = map_range h y"
  by (cases y) (simp_all add: map_range_def)

lemma map_range_update_same:
  "a < length h \<Longrightarrow> map_range (h[a := c]) (MapRef a) = c"
  by (simp add: map_range_def)

lemma Clone_loop_result:
  "Clone_loop kvs (MapRef a) h = Inr (h[a := fold (\<lambda>kv. AList.update (fst kv) (snd kv)) kvs (h ! a)])"
proof (induction kvs arbitrary: h)
  case Nil
  show ?case by simp
next
  case (Cons kv kvs)
  obtain k v where kv: "kv = (k, v)" by (cases kv)
  show ?case
  proof (cases "a < length h")
    case True
    then show ?thesis by (simp add: kv map_assign_def Cons.IH)
  next
    case False
    then show ?thesis by (simp add: kv map_assign_def Cons.IH list_update_beyond)
  qed
qed

lemma update_fresh: "k \<notin> fst ` set al \<Longrightarrow> AList.update k v al = al @ [(k, v)]"
  by (induction al) auto

lemma fold_update_distinct:
  "distinct (map fst (acc @ kvs)) \<Longrightarrow>
   fold (\<lambda>kv. AList.update (fst kv) (snd kv)) kvs acc = acc @ kvs"
proof (induction kvs arbitrary: acc)
  case Nil
  show ?case by simp
next
  case (Cons kv kvs)
  have fresh: "fst kv \<notin> fst ` set acc" using Cons.prems by auto
  have d: "distinct (map fst ((acc @ [kv]) @ kvs))" using Cons.prems by simp
  show ?case using Cons.IH [OF d] fresh by (simp add: update_fresh)
qed

lemma heap_ok_range: "heap_ok h \<Longrightarrow> valid_ref h m \<Longrightarrow> distinct (map fst (map_range h m))"
  by (cases m) (auto simp: heap_ok_def valid_ref_def map_range_def list_all_length)

lemma Metric_Clone_result:
  "Metric_Clone h m =
     Inr (h @ [fold (\<lambda>kv. AList.update (fst kv) (snd kv)) (map_range h m) []], MapRef (length h))"
  by (simp add: Metric_Clone_def map_make_def Clone_loop_result)

lemma Metric_Clone_ok:
  "heap_ok h \<Longrightarrow> valid_ref h m \<Longrightarrow>
   Metric_Clone h m = Inr (h @ [map_range h m], MapRef (length h))"
  using fold_update_distinct [of "[]" "map_range h m"]
  by (simp add: Metric_Clone_result heap_ok_range)

lemma labels_append: "valid_ref h y \<Longrightarrow> labels (h @ cs) y = labels h y"
  by (simp add: labels_def map_range_append)

lemma valid_ref_fresh: "valid_ref h y \<Longrightarrow> y \<noteq> MapRef (length h)"
  by (auto simp: valid_ref_def)

lemma apply_mut_frame:
  "apply_mut h m mu = Inr h' \<Longrightarrow> y \<noteq> m \<Longrightarrow> map_range h' y = map_range h y"
  by (cases mu; cases m)
     (auto simp: map_assign_def map_delete_def map_range_update_other)

lemma apply_muts_frame:
  "apply_muts h m mus = Inr h' \<Longrightarrow> y \<noteq> m \<Longrightarrow> map_range h' y = map_range h y"
proof (induction mus arbitrary: h)
  case Nil
  then show ?case by simp
next
  case (Cons mu mus)
  from Cons.prems(1) obtain h1 where
    s1: "apply_mut h m mu = Inr h1" and s2: "apply_muts h1 m mus = Inr h'"
    by (auto split: sum.splits)
  have "map_range h' y = map_range h1 y" using Cons.IH [OF s2 Cons.prems(2)] .
  also have "\<dots> = map_range h y" using apply_mut_frame [OF s1 Cons.prems(2)] .
  finally show ?case .
qed

lemma apply_mut_total: "m \<noteq> NilMap \<Longrightarrow> \<exists>h'. apply_mut h m mu = Inr h'"
  by (cases mu; cases m) (simp_all add: map_assign_def)

lemma apply_muts_total: "m \<noteq> NilMap \<Longrightarrow> \<exists>h'. apply_muts h m mus = Inr h'"
proof (induction mus arbitrary: h)
  case Nil
  show ?case by simp
next
  case (Cons mu mus)
  obtain h1 where "apply_mut h m mu = Inr h1"
    using apply_mut_total [OF Cons.prems] by blast
  then show ?case using Cons.IH [OF Cons.prems, of h1] by simp
qed

lemma LabelSet_Equal_iff: "LabelSet_Equal h a b \<longleftrightarrow> labels h a = labels h b"
proof
  assume eq: "LabelSet_Equal h a b"
  show "labels h a = labels h b"
  proof
    fix k
    show "labels h a k = labels h b k"
    proof (cases "k \<in> fst ` set (map_range h a) \<union> fst ` set (map_range h b)")
      case True
      then show ?thesis
        using eq by (auto simp: LabelSet_Equal_def labels_def map_lookup_def list_all_iff)
    next
      case False
      then have "map_of (map_range h a) k = None" "map_of (map_range h b) k = None"
        by (simp_all add: map_of_eq_None_iff)
      then show ?thesis by (simp add: labels_def)
    qed
  qed
next
  assume "labels h a = labels h b"
  then show "LabelSet_Equal h a b"
    by (simp add: LabelSet_Equal_def labels_def map_lookup_def list_all_iff)
qed

lemma doCOW_borrowed:
  "\<not> Copied X \<Longrightarrow>
   COWMetric_doCOW h X =
     Inr (h @ [fold (\<lambda>kv. AList.update (fst kv) (snd kv)) (map_range h (Metric X)) []],
          X\<lparr>Metric := MapRef (length h), Copied := True\<rparr>)"
  by (simp add: COWMetric_doCOW_def Metric_Clone_result)

lemma doCOW_owned: "Copied X \<Longrightarrow> COWMetric_doCOW h X = Inr (h, X)"
  by (simp add: COWMetric_doCOW_def)

lemma Set_borrowed:
  "\<not> Copied X \<Longrightarrow>
   COWMetric_Set h X ln lv =
     Inr (h @ [AList.update ln lv
                 (fold (\<lambda>kv. AList.update (fst kv) (snd kv)) (map_range h (Metric X)) [])],
          X\<lparr>Metric := MapRef (length h), Copied := True\<rparr>)"
  by (simp add: COWMetric_Set_def doCOW_borrowed map_assign_def)

lemma Del_borrowed:
  "\<not> Copied X \<Longrightarrow>
   COWMetric_Del h X ln =
     Inr (h @ [AList.delete ln
                 (fold (\<lambda>kv. AList.update (fst kv) (snd kv)) (map_range h (Metric X)) [])],
          X\<lparr>Metric := MapRef (length h), Copied := True\<rparr>)"
  by (simp add: COWMetric_Del_def doCOW_borrowed map_delete_def)

section \<open>Cloning\<close>

text \<open>
  Claim C4. For every Metric \<open>A\<close>, \<open>A.Clone()\<close> returns a Metric \<open>B\<close> that is
  \<open>Equal\<close> to \<open>A\<close>. Cloning does not change what \<open>A\<close> holds. Every sequence of
  insertions, overwrites and deletions on the clone succeeds and leaves the label
  mapping of \<open>A\<close> as it was, and every such sequence on \<open>A\<close> leaves the label mapping
  of the clone as it was; on a non-nil \<open>A\<close> such a sequence always succeeds.
\<close>

theorem C4_Clone_equal_and_independent:
  assumes ok: "heap_ok h" and va: "valid_ref h A"
  shows "\<exists>h' B. Metric_Clone h A = Inr (h', B) \<and> Metric_Equal h' A B
           \<and> labels h' A = labels h A
           \<and> (\<forall>mus. \<exists>h''. apply_muts h' B mus = Inr h'' \<and> labels h'' A = labels h A)
           \<and> (\<forall>mus h''. apply_muts h' A mus = Inr h'' \<longrightarrow> labels h'' B = labels h' B)
           \<and> (A \<noteq> NilMap \<longrightarrow> (\<forall>mus. \<exists>h''. apply_muts h' A mus = Inr h''))"
proof -
  define h' where "h' = h @ [map_range h A]"
  define B where "B = MapRef (length h)"
  have clone: "Metric_Clone h A = Inr (h', B)"
    using Metric_Clone_ok [OF ok va] by (simp add: h'_def B_def)
  have neq: "A \<noteq> B" using valid_ref_fresh [OF va] by (simp add: B_def)
  have rA: "map_range h' A = map_range h A"
    by (simp add: h'_def map_range_append [OF va])
  have rB: "map_range h' B = map_range h A"
    by (simp add: h'_def B_def map_range_def)
  have lA: "labels h' A = labels h A" by (simp add: labels_def rA)
  have eq: "Metric_Equal h' A B"
    by (simp add: Metric_Equal_def LabelSet_Equal_iff labels_def rA rB)
  have onB: "\<exists>h''. apply_muts h' B mus = Inr h'' \<and> labels h'' A = labels h A" for mus
  proof -
    obtain h'' where r: "apply_muts h' B mus = Inr h''"
      using apply_muts_total [of B h' mus] by (auto simp: B_def)
    have "map_range h'' A = map_range h' A" using apply_muts_frame [OF r neq] .
    then show ?thesis using r rA by (auto simp: labels_def)
  qed
  have onA: "apply_muts h' A mus = Inr h'' \<longrightarrow> labels h'' B = labels h' B" for mus h''
  proof
    assume r: "apply_muts h' A mus = Inr h''"
    have "map_range h'' B = map_range h' B" using apply_muts_frame [OF r, of B] neq by auto
    then show "labels h'' B = labels h' B" by (simp add: labels_def)
  qed
  have totA: "A \<noteq> NilMap \<longrightarrow> (\<forall>mus. \<exists>h''. apply_muts h' A mus = Inr h'')"
    using apply_muts_total by blast
  show ?thesis using clone eq lA onB onA totA by blast
qed

theorem C4_Clone_equal_and_independent_witness:
  "heap_ok [[(''job'', ''api'')]] \<and> valid_ref [[(''job'', ''api'')]] (MapRef 0)
   \<and> (\<exists>h' B. Metric_Clone [[(''job'', ''api'')]] (MapRef 0) = Inr (h', B)
          \<and> Metric_Equal h' (MapRef 0) B
          \<and> labels h' (MapRef 0) = labels [[(''job'', ''api'')]] (MapRef 0)
          \<and> (\<forall>mus. \<exists>h''. apply_muts h' B mus = Inr h''
                 \<and> labels h'' (MapRef 0) = labels [[(''job'', ''api'')]] (MapRef 0))
          \<and> (\<forall>mus h''. apply_muts h' (MapRef 0) mus = Inr h'' \<longrightarrow> labels h'' B = labels h' B)
          \<and> (MapRef 0 \<noteq> NilMap \<longrightarrow> (\<forall>mus. \<exists>h''. apply_muts h' (MapRef 0) mus = Inr h'')))"
proof -
  have ok: "heap_ok [[(''job'', ''api'')]]" by (simp add: heap_ok_def)
  have va: "valid_ref [[(''job'', ''api'')]] (MapRef 0)" by (simp add: valid_ref_def)
  show ?thesis
    using ok va C4_Clone_equal_and_independent [OF ok va] by simp
qed

section \<open>Copy-on-write isolation\<close>

text \<open>
  Claim C1. For every COWMetric \<open>X\<close> in the Borrowed state (\<open>Copied\<close> false) over a
  Metric that other references hold too, \<open>X.Set(name, value)\<close> and \<open>X.Del(name)\<close>
  return normally, leave the label mapping seen through every reference that existed
  before the call unchanged (the wrapped Metric itself among them), and leave
  \<open>X.Copied\<close> true.
\<close>

theorem C1_cow_isolation:
  assumes b: "\<not> Copied X" and vx: "valid_ref h (Metric X)"
  shows "(\<exists>h' X'. COWMetric_Set h X name val = Inr (h', X') \<and> Copied X'
            \<and> labels h' (Metric X) = labels h (Metric X)
            \<and> (\<forall>Y. valid_ref h Y \<longrightarrow> labels h' Y = labels h Y))
       \<and> (\<exists>h' X'. COWMetric_Del h X name = Inr (h', X') \<and> Copied X'
            \<and> labels h' (Metric X) = labels h (Metric X)
            \<and> (\<forall>Y. valid_ref h Y \<longrightarrow> labels h' Y = labels h Y))"
  using vx by (simp add: Set_borrowed [OF b] Del_borrowed [OF b] labels_append)

theorem C1_cow_isolation_witness:
  "\<not> Copied \<lparr>Copied = False, Metric = MapRef 0\<rparr>
   \<and> valid_ref [[(''job'', ''api'')]] (Metric \<lparr>Copied = False, Metric = MapRef 0\<rparr>)
   \<and> (\<exists>h' X'. COWMetric_Set [[(''job'', ''api'')]] \<lparr>Copied = False, Metric = MapRef 0\<rparr> ''a'' ''b''
                  = Inr (h', X') \<and> Copied X'
          \<and> labels h' (MapRef 0) = labels [[(''job'', ''api'')]] (MapRef 0))
   \<and> (\<exists>h' X'. COWMetric_Del [[(''job'', ''api'')]] \<lparr>Copied = False, Metric = MapRef 0\<rparr> ''a''
                  = Inr (h', X') \<and> Copied X'
          \<and> labels h' (MapRef 0) = labels [[(''job'', ''api'')]] (MapRef 0))"
proof -
  have b: "\<not> Copied \<lparr>Copied = False, Metric = MapRef 0\<rparr>" by simp
  have vx: "valid_ref [[(''job'', ''api'')]] (Metric \<lparr>Copied = False, Metric = MapRef 0\<rparr>)"
    by (simp add: valid_ref_def)
  show ?thesis
    using b vx C1_cow_isolation [OF b vx, of "''a''" "''b''"] by auto
qed

section \<open>Borrowed holders of the nil Metric\<close>

text \<open>
  Claim C9. \<open>Set\<close> and \<open>Del\<close> on a COWMetric in the Borrowed state (\<open>Copied\<close> false)
  return normally whatever the wrapped Metric is, the \<^verbatim>\<open>nil\<close> map included:
  \<open>Clone\<close> always returns a fresh non-nil map, the edit is written into that map,
  and for a wrapped \<^verbatim>\<open>nil\<close> Metric the holder ends with exactly the label that was
  set (or with no label after \<open>Del\<close>).
\<close>

theorem C9_borrowed_nil_total:
  assumes b: "\<not> Copied m" and v: "valid_ref h (Metric m)"
  shows "(\<exists>h' c. Metric_Clone h (Metric m) = Inr (h', c) \<and> c \<noteq> NilMap \<and> valid_ref h' c)
       \<and> (\<exists>h' m'. COWMetric_Set h m ln lv = Inr (h', m') \<and> Metric m' \<noteq> NilMap
              \<and> valid_ref h' (Metric m') \<and> labels h' (Metric m') ln = Some lv
              \<and> (Metric m = NilMap \<longrightarrow> labels h' (Metric m') = [ln \<mapsto> lv]))
       \<and> (\<exists>h' m'. COWMetric_Del h m ln = Inr (h', m') \<and> Metric m' \<noteq> NilMap
              \<and> valid_ref h' (Metric m') \<and> labels h' (Metric m') ln = None
              \<and> (Metric m = NilMap \<longrightarrow> labels h' (Metric m') = Map.empty))"
  by (simp add: Metric_Clone_result Set_borrowed [OF b] Del_borrowed [OF b]
        valid_ref_def labels_def map_range_def update_conv' delete_conv')

theorem C9_borrowed_nil_total_witness:
  "\<not> Copied \<lparr>Copied = False, Metric = NilMap\<rparr>
   \<and> valid_ref [] (Metric \<lparr>Copied = False, Metric = NilMap\<rparr>)
   \<and> (\<exists>h' m'. COWMetric_Set [] \<lparr>Copied = False, Metric = NilMap\<rparr> ''a'' ''b'' = Inr (h', m')
          \<and> Metric m' \<noteq> NilMap \<and> labels h' (Metric m') = [''a'' \<mapsto> ''b''])
   \<and> (\<exists>h' m'. COWMetric_Del [] \<lparr>Copied = False, Metric = NilMap\<rparr> ''a'' = Inr (h', m')
          \<and> Metric m' \<noteq> NilMap \<and> labels h' (Metric m') = Map.empty)"
proof -
  have b: "\<not> Copied \<lparr>Copied = False, Metric = NilMap\<rparr>" by simp
  have v: "valid_ref [] (Metric \<lparr>Copied = False, Metric = NilMap\<rparr>)"
    by (simp add: valid_ref_def)
  show ?thesis
    using b v C9_borrowed_nil_total [OF b v, of "''a''" "''b''"] by auto
qed

section \<open>Deleting labels\<close>

lemma Del_owned: "Copied m \<Longrightarrow> COWMetric_Del h m ln = Inr (map_delete h (Metric m) ln, m)"
  by (simp add: COWMetric_Del_def doCOW_owned)

lemma map_delete_absent: "ln \<notin> dom (labels h m) \<Longrightarrow> map_delete h m ln = h"
  by (cases m) (simp_all add: map_delete_def labels_def map_range_def dom_map_of_conv_image_fst)

text \<open>
  Claim C7. \<open>Del\<close> returns normally for every COWMetric and every label name. On a
  COWMetric in the Owned state (\<open>Copied\<close> true), \<open>Del(name)\<close> with a label name
  that the wrapped Metric does not have leaves the store and the holder exactly as
  they were.
\<close>

theorem C7_Del_total_and_absent_noop:
  "(\<exists>h' m'. COWMetric_Del h m ln = Inr (h', m'))
   \<and> (Copied m \<longrightarrow> ln \<notin> dom (labels h (Metric m)) \<longrightarrow> COWMetric_Del h m ln = Inr (h, m))"
proof (cases "Copied m")
  case True
  then show ?thesis by (simp add: Del_owned map_delete_absent)
next
  case False
  then show ?thesis by (simp add: Del_borrowed)
qed

theorem C7_Del_total_and_absent_noop_witness:
  "Copied \<lparr>Copied = True, Metric = MapRef 0\<rparr>
   \<and> ''zone'' \<notin> dom (labels [[(''job'', ''api'')]] (Metric \<lparr>Copied = True, Metric = MapRef 0\<rparr>))
   \<and> COWMetric_Del [[(''job'', ''api'')]] \<lparr>Copied = True, Metric = MapRef 0\<rparr> ''zone''
       = Inr ([[(''job'', ''api'')]], \<lparr>Copied = True, Metric = MapRef 0\<rparr>)"
proof -
  have c: "Copied \<lparr>Copied = True, Metric = MapRef 0\<rparr>" by simp
  have a: "''zone'' \<notin> dom (labels [[(''job'', ''api'')]] (Metric \<lparr>Copied = True, Metric = MapRef 0\<rparr>))"
    by (simp add: labels_def map_range_def)
  show ?thesis
    using c a C7_Del_total_and_absent_noop
      [of "[[(''job'', ''api'')]]" "\<lparr>Copied = True, Metric = MapRef 0\<rparr>" "''zone''"]
    by blast
qed

section \<open>Rendering\<close>

lemma String_loop_eq:
  "String_loop q xs acc = acc @ map (render_label q) (other_labels xs)"
  by (induction xs arbitrary: acc)
     (auto simp: other_labels_def render_label_def Sprintf_label_def)

lemma Metric_String_cases:
  "Metric_String q h m =
     Inr (if map_of (map_range h m) MetricNameLabel \<noteq> None \<and> length (map_range h m) = 1
          then name_of (map_range h m)
          else if map_range h m = [] then ''{}''
          else name_of (map_range h m) @ ''{''
                 @ Join (sort (map (render_label q) (other_labels (map_range h m)))) '', ''
                 @ ''}'')"
proof (cases "map_of (map_range h m) MetricNameLabel")
  case None
  then show ?thesis
    by (simp add: Metric_String_def map_lookup_def map_len_def name_of_def String_loop_eq)
next
  case (Some n)
  then have "map_range h m \<noteq> []" by auto
  then have "0 < length (map_range h m)" by simp
  with Some show ?thesis
    by (auto simp: Metric_String_def map_lookup_def map_len_def name_of_def String_loop_eq)
qed

lemma filter_key_distinct:
  "distinct (map fst xs) \<Longrightarrow> kv \<in> set xs \<Longrightarrow> filter (\<lambda>x. fst kv = fst x) xs = [kv]"
proof (induction xs)
  case Nil
  then show ?case by simp
next
  case (Cons x xs)
  have nx: "fst x \<notin> fst ` set xs" and dx: "distinct (map fst xs)"
    using Cons.prems(1) by simp_all
  show ?case
  proof (cases "kv = x")
    case True
    have "\<forall>y\<in>set xs. fst x \<noteq> fst y" using nx by blast
    then have "filter (\<lambda>y. fst x = fst y) xs = []"
      by (simp add: filter_empty_conv)
    then show ?thesis using True by simp
  next
    case False
    then have in_xs: "kv \<in> set xs" using Cons.prems(2) by simp
    have "fst kv \<noteq> fst x" using nx in_xs by (metis imageI)
    then show ?thesis using Cons.IH [OF dx in_xs] by simp
  qed
qed

lemma only_name_iff:
  assumes d: "distinct (map fst xs)" and n: "map_of xs MetricNameLabel \<noteq> None"
  shows "length xs = 1 \<longleftrightarrow> other_labels xs = []"
proof -
  from n obtain v where v: "map_of xs MetricNameLabel = Some v" by auto
  then have mem: "(MetricNameLabel, v) \<in> set xs" by (rule map_of_SomeD)
  have one: "filter (\<lambda>x. MetricNameLabel = fst x) xs = [(MetricNameLabel, v)]"
    using filter_key_distinct [OF d mem] by simp
  have "length xs = length (filter (\<lambda>x. MetricNameLabel = fst x) xs)
                  + length (filter (\<lambda>x. \<not> MetricNameLabel = fst x) xs)"
    by (rule sum_length_filter_compl [symmetric])
  moreover have "filter (\<lambda>x. \<not> MetricNameLabel = fst x) xs = other_labels xs"
    by (auto simp: other_labels_def intro: filter_cong)
  ultimately have "length xs = 1 + length (other_labels xs)" using one by simp
  then show ?thesis by auto
qed

lemma no_name_other_empty:
  "map_of xs MetricNameLabel = None \<Longrightarrow> other_labels xs = [] \<Longrightarrow> xs = []"
proof (rule ccontr)
  assume none: "map_of xs MetricNameLabel = None" and o: "other_labels xs = []" and ne: "xs \<noteq> []"
  from ne obtain kv where kv: "kv \<in> set xs" by (cases xs) auto
  from o kv have "fst kv = MetricNameLabel"
    by (auto simp: other_labels_def filter_empty_conv)
  with kv have "MetricNameLabel \<in> fst ` set xs" by force
  with none show False by (simp add: map_of_eq_None_iff)
qed

lemma Metric_String_ok:
  assumes d: "distinct (map fst (map_range h m))"
  shows "Metric_String q h m =
     Inr (if map_of (map_range h m) MetricNameLabel \<noteq> None \<and> other_labels (map_range h m) = []
          then name_of (map_range h m)
          else if map_range h m = [] then ''{}''
          else name_of (map_range h m) @ ''{''
                 @ Join (sort (map (render_label q) (other_labels (map_range h m)))) '', ''
                 @ ''}'')"
  using only_name_iff [OF d] by (auto simp: Metric_String_cases)

lemma map_sort_key: "map f (sort_key f xs) = sort (map f xs)"
proof -
  have "mset (map f (sort_key f xs)) = mset (map f xs)" by simp
  moreover have "sorted (map f (sort_key f xs))" by simp
  ultimately show ?thesis by (rule properties_for_sort [symmetric])
qed

lemma le_append_no_prefix:
  "\<not> prefix a b \<Longrightarrow> \<not> prefix b a \<Longrightarrow> a @ u \<le> b @ v \<Longrightarrow> (a :: 'a :: linorder list) \<le> b"
proof (induction a arbitrary: b)
  case Nil
  then show ?case by simp
next
  case (Cons x a)
  then show ?case by (cases b) auto
qed

lemma mset_eq_of_map_of_eq:
  assumes dx: "distinct (map fst xs)" and dy: "distinct (map fst ys)"
    and eq: "map_of xs = map_of ys"
  shows "mset xs = mset ys"
proof -
  have s: "set xs = set ys" using map_of_inject_set [OF dx dy] eq by simp
  have "distinct xs" "distinct ys" using dx dy by (simp_all add: distinct_map)
  then show ?thesis using s by (simp add: set_eq_iff_mset_eq_distinct)
qed

lemma map_of_eq_of_mset_eq:
  assumes dx: "distinct (map fst xs)" and eq: "mset ys = mset xs"
  shows "distinct (map fst ys) \<and> map_of ys = map_of xs"
proof -
  have "mset (map fst ys) = mset (map fst xs)" using eq by simp
  then have dy: "distinct (map fst ys)"
    using dx mset_eq_imp_distinct_iff [of "map fst ys" "map fst xs"] by simp
  have s: "set ys = set xs" using eq by (rule mset_eq_setD)
  have "map_of ys = map_of xs" using map_of_inject_set [OF dy dx] s by simp
  with dy show ?thesis by simp
qed

lemma Nil_iff_of_mset_eq: "mset xs = mset ys \<Longrightarrow> (xs = []) = (ys = [])"
  using mset_eq_length [of xs ys] by auto

lemma sort_eq_of_mset_eq:
  "mset xs = mset ys \<Longrightarrow> sort xs = sort (ys :: 'a :: linorder list)"
  using properties_for_sort [of "sort ys" xs] by simp

lemma String_of_mset_eq:
  assumes dx: "distinct (map fst (map_range h1 m1))"
    and dy: "distinct (map fst (map_range h2 m2))"
    and eq: "mset (map_range h1 m1) = mset (map_range h2 m2)"
  shows "Metric_String q h1 m1 = Metric_String q h2 m2"
proof -
  let ?xs = "map_range h1 m1" and ?ys = "map_range h2 m2"
  have mo: "map_of ?xs = map_of ?ys"
    using map_of_eq_of_mset_eq [OF dy eq] by simp
  have nm: "name_of ?xs = name_of ?ys" by (simp add: name_of_def mo)
  have "mset (other_labels ?xs) = mset (other_labels ?ys)"
    by (simp add: other_labels_def eq)
  then have oe: "(other_labels ?xs = []) = (other_labels ?ys = [])"
    by (rule Nil_iff_of_mset_eq)
  have "mset (map (render_label q) (other_labels ?xs))
      = mset (map (render_label q) (other_labels ?ys))"
    by (simp add: other_labels_def eq)
  then have so: "sort (map (render_label q) (other_labels ?xs))
      = sort (map (render_label q) (other_labels ?ys))"
    by (rule sort_eq_of_mset_eq)
  have em: "(?xs = []) = (?ys = [])" using eq by (rule Nil_iff_of_mset_eq)
  show ?thesis
    unfolding Metric_String_ok [OF dx] Metric_String_ok [OF dy]
    by (simp only: mo nm oe so em)
qed

lemma render_le_imp_key_le:
  assumes "\<not> strict_prefix (fst x) (fst y)" and "\<not> strict_prefix (fst y) (fst x)"
    and "render_label q x \<le> render_label q y"
  shows "fst x \<le> fst y"
proof (cases "fst x = fst y")
  case True
  then show ?thesis by simp
next
  case False
  with assms(1,2) have "\<not> prefix (fst x) (fst y)" "\<not> prefix (fst y) (fst x)"
    by (auto simp: strict_prefix_def)
  then show ?thesis
    using assms(3) le_append_no_prefix [of "fst x" "fst y"]
    by (simp add: render_label_def)
qed

lemma sort_key_render_eq:
  assumes d: "distinct (map fst ys)"
    and pf: "\<forall>x\<in>set ys. \<forall>y\<in>set ys. \<not> strict_prefix (fst x) (fst y)"
  shows "sort_key (render_label q) ys = sort_key fst ys"
proof -
  let ?zs = "sort_key (render_label q) ys"
  have m: "mset ?zs = mset ys" by simp
  have dz: "distinct (map fst ?zs)"
    using map_of_eq_of_mset_eq [OF d m] by simp
  have "sorted (map (render_label q) ?zs)" by simp
  then have "sorted_wrt (\<lambda>x y. render_label q x \<le> render_label q y) ?zs"
    by (simp add: sorted_map)
  then have "sorted_wrt (\<lambda>x y. fst x \<le> fst y) ?zs"
  proof (rule sorted_wrt_mono_rel [rotated])
    fix x y
    assume "x \<in> set ?zs" "y \<in> set ?zs" "render_label q x \<le> render_label q y"
    then show "fst x \<le> fst y"
      using pf render_le_imp_key_le [of x y q] by simp
  qed
  then have srt: "sorted (map fst ?zs)" by (simp add: sorted_map)
  have flt: "filter (\<lambda>x. fst k = fst x) ?zs = filter (\<lambda>x. fst k = fst x) ys"
    if "k \<in> set ?zs" for k
  proof -
    from that have ky: "k \<in> set ys" by simp
    show ?thesis
      using filter_key_distinct [OF dz that] filter_key_distinct [OF d ky] by simp
  qed
  show ?thesis
    using properties_for_sort_key [of ?zs ys fst, OF m flt srt] by simp
qed

lemma prefix_free_iff:
  "prefix_free xs \<longleftrightarrow>
     (\<forall>x\<in>set (other_labels xs). \<forall>y\<in>set (other_labels xs). \<not> strict_prefix (fst x) (fst y))"
  by (simp add: prefix_free_def list_all_iff)

lemma distinct_other_labels:
  "distinct (map fst xs) \<Longrightarrow> distinct (map fst (other_labels xs))"
  by (simp add: other_labels_def distinct_map_filter)

lemma Metric_String_spec:
  assumes d: "distinct (map fst (map_range h m))" and pf: "prefix_free (map_range h m)"
  shows "Metric_String q h m = Inr (String_spec q (map_range h m))"
proof -
  let ?os = "other_labels (map_range h m)"
  have "sort (map (render_label q) ?os) = map (render_label q) (sort_key (render_label q) ?os)"
    by (simp add: map_sort_key)
  also have "\<dots> = map (render_label q) (sort_key fst ?os)"
    using sort_key_render_eq [OF distinct_other_labels [OF d]] pf
    by (simp add: prefix_free_iff)
  finally show ?thesis
    by (simp add: Metric_String_ok [OF d] String_spec_def)
qed

lemma Join_length: "ss \<noteq> [] \<Longrightarrow> length (hd ss) \<le> length (Join ss sep)"
  by (induction ss sep rule: Join.induct) simp_all

lemma render_nonempty: "render_label q kv \<noteq> []"
  by (simp add: render_label_def)

lemma Join_render_nonempty:
  assumes "os \<noteq> []"
  shows "Join (sort (map (render_label q) os)) sep \<noteq> []"
proof -
  let ?ss = "sort (map (render_label q) os)"
  have ne: "?ss \<noteq> []"
  proof
    assume e: "?ss = []"
    have "set ?ss = set (map (render_label q) os)" by simp
    with e have "set (map (render_label q) os) = {}" by simp
    then show False using assms by simp
  qed
  then have "hd ?ss \<in> set ?ss" by (rule hd_in_set)
  moreover have "set ?ss = render_label q ` set os" by simp
  ultimately obtain kv where "hd ?ss = render_label q kv" by auto
  then have hne: "hd ?ss \<noteq> []" by (simp add: render_nonempty)
  show ?thesis
  proof
    assume j: "Join ?ss sep = []"
    have "length (hd ?ss) \<le> length (Join ?ss sep)" using ne by (rule Join_length)
    with j have "hd ?ss = []" by simp
    with hne show False by simp
  qed
qed

lemma singleton_name:
  assumes "length xs = 1" and "map_of xs k = Some v"
  shows "xs = [(k, v)]"
proof -
  from assms(1) obtain kv where xs: "xs = [kv]" by (cases xs) auto
  obtain k' v' where kv: "kv = (k', v')" by (cases kv)
  from assms(2) show ?thesis by (simp add: xs kv split: if_splits)
qed

lemma String_braces_iff:
  assumes d: "distinct (map fst (map_range h m))"
  shows "Metric_String q h m = Inr ''{}'' \<longleftrightarrow>
           map_range h m = [] \<or> map_range h m = [(MetricNameLabel, ''{}'')]"
proof
  let ?xs = "map_range h m"
  assume s: "Metric_String q h m = Inr ''{}''"
  show "?xs = [] \<or> ?xs = [(MetricNameLabel, ''{}'')]"
  proof (cases "map_of ?xs MetricNameLabel \<noteq> None \<and> other_labels ?xs = []")
    case True
    then obtain n where n: "map_of ?xs MetricNameLabel = Some n" by auto
    have "Metric_String q h m = Inr n"
      using True n by (simp add: Metric_String_ok [OF d] name_of_def)
    with s have nv: "n = ''{}''" by simp
    have "length ?xs = 1" using only_name_iff [OF d] True by simp
    then have "?xs = [(MetricNameLabel, n)]" using n by (rule singleton_name)
    then show ?thesis by (simp add: nv)
  next
    case False
    show ?thesis
    proof (cases "?xs = []")
      case True
      then show ?thesis by simp
    next
      case ne: False
      have one: "other_labels ?xs \<noteq> []"
      proof
        assume o: "other_labels ?xs = []"
        with False have "map_of ?xs MetricNameLabel = None" by simp
        then have "?xs = []" using o by (rule no_name_other_empty)
        with ne show False by simp
      qed
      define J where "J = Join (sort (map (render_label q) (other_labels ?xs))) '', ''"
      have j: "J \<noteq> []" unfolding J_def using one by (rule Join_render_nonempty)
      have r: "Metric_String q h m = Inr (name_of ?xs @ ''{'' @ J @ ''}'')"
        using False ne by (simp add: Metric_String_ok [OF d] J_def)
      have "(Inr (name_of ?xs @ ''{'' @ J @ ''}'') :: error + string) = Inr ''{}''"
        using r [symmetric] s by (rule trans)
      then have "name_of ?xs @ ''{'' @ J @ ''}'' = ''{}''" by (rule Inr_inject)
      then have "length (name_of ?xs @ ''{'' @ J @ ''}'') = length ''{}''"
        by (rule arg_cong)
      then have "length J = 0" by simp
      with j show ?thesis by simp
    qed
  qed
next
  assume "map_range h m = [] \<or> map_range h m = [(MetricNameLabel, ''{}'')]"
  then show "Metric_String q h m = Inr ''{}''"
  proof
    assume "map_range h m = []"
    then show ?thesis by (simp add: Metric_String_cases)
  next
    assume "map_range h m = [(MetricNameLabel, ''{}'')]"
    then show ?thesis by (simp add: Metric_String_cases name_of_def)
  qed
qed

text \<open>
  Claim C3, as amended. For every Metric, \<open>String()\<close> returns: the value of the
  metric-name label when that label is present and there is no other label;
  \<^verbatim>\<open>{}\<close> when the label set is empty; and otherwise the name (empty when absent)
  followed by the other labels in braces, each rendered \<^verbatim>\<open>label=%q(value)\<close>,
  separated by a comma and a space, and ordered by the byte order of these rendered
  strings. When no label name is a proper prefix of another, that order is the
  order of the label names and the output is the rendering of the specification.
  The claim as written (labels sorted by label name) fails when one label name is a
  proper prefix of another, as the labels \<^verbatim>\<open>a\<close> and \<^verbatim>\<open>a1\<close> show.
\<close>

theorem C3_String_rendering:
  assumes ok: "heap_ok h" and v: "valid_ref h m"
  shows "(\<forall>n. labels h m MetricNameLabel = Some n \<and> other_labels (map_range h m) = []
            \<longrightarrow> Metric_String q h m = Inr n)
       \<and> (map_range h m = [] \<longrightarrow> Metric_String q h m = Inr ''{}'')
       \<and> (other_labels (map_range h m) \<noteq> [] \<longrightarrow>
            (\<exists>zs. mset zs = mset (other_labels (map_range h m))
                \<and> sorted (map (render_label q) zs)
                \<and> Metric_String q h m =
                    Inr (name_of (map_range h m) @ ''{''
                           @ Join (map (render_label q) zs) '', '' @ ''}'')))
       \<and> (prefix_free (map_range h m) \<longrightarrow>
            Metric_String q h m = Inr (String_spec q (map_range h m)))"
proof -
  let ?xs = "map_range h m"
  have d: "distinct (map fst ?xs)" using heap_ok_range [OF ok v] .
  have a: "\<forall>n. labels h m MetricNameLabel = Some n \<and> other_labels ?xs = []
             \<longrightarrow> Metric_String q h m = Inr n"
    by (simp add: Metric_String_ok [OF d] labels_def name_of_def)
  have b: "?xs = [] \<longrightarrow> Metric_String q h m = Inr ''{}''"
    by (simp add: Metric_String_ok [OF d] other_labels_def)
  have c: "other_labels ?xs \<noteq> [] \<longrightarrow>
            (\<exists>zs. mset zs = mset (other_labels ?xs)
                \<and> sorted (map (render_label q) zs)
                \<and> Metric_String q h m =
                    Inr (name_of ?xs @ ''{'' @ Join (map (render_label q) zs) '', '' @ ''}''))"
  proof
    assume ne: "other_labels ?xs \<noteq> []"
    then have xne: "?xs \<noteq> []" by (auto simp: other_labels_def)
    let ?zs = "sort_key (render_label q) (other_labels ?xs)"
    have "mset ?zs = mset (other_labels ?xs)" by simp
    moreover have "sorted (map (render_label q) ?zs)" by simp
    moreover have "Metric_String q h m =
        Inr (name_of ?xs @ ''{'' @ Join (map (render_label q) ?zs) '', '' @ ''}'')"
      using ne xne by (simp add: Metric_String_ok [OF d] map_sort_key)
    ultimately show "\<exists>zs. mset zs = mset (other_labels ?xs)
                \<and> sorted (map (render_label q) zs)
                \<and> Metric_String q h m =
                    Inr (name_of ?xs @ ''{'' @ Join (map (render_label q) zs) '', '' @ ''}'')"
      by blast
  qed
  have e: "prefix_free ?xs \<longrightarrow> Metric_String q h m = Inr (String_spec q ?xs)"
    using Metric_String_spec [OF d] by blast
  show ?thesis using a b c e by blast
qed

theorem C3_String_rendering_witness:
  "heap_ok [[(''method'', ''GET''), (''__name__'', ''http_requests_total''), (''code'', ''200'')]]
   \<and> valid_ref [[(''method'', ''GET''), (''__name__'', ''http_requests_total''), (''code'', ''200'')]]
        (MapRef 0)
   \<and> prefix_free [(''method'', ''GET''), (''__name__'', ''http_requests_total''), (''code'', ''200'')]
   \<and> Metric_String Quote_ascii
        [[(''method'', ''GET''), (''__name__'', ''http_requests_total''), (''code'', ''200'')]]
        (MapRef 0)
      = Inr ''http_requests_total{code=\"200\", method=\"GET\"}''
   \<and> Metric_String Quote_ascii [[(''__name__'', ''up'')]] (MapRef 0) = Inr ''up''
   \<and> Metric_String Quote_ascii [] NilMap = Inr ''{}''"
proof -
  let ?H = "[[(''method'', ''GET''), (''__name__'', ''http_requests_total''), (''code'', ''200'')]]"
  have ok: "heap_ok ?H" by code_simp
  have v: "valid_ref ?H (MapRef 0)" by code_simp
  have r: "map_range ?H (MapRef 0) = ?H ! 0" by (simp add: map_range_def)
  have pf: "prefix_free (map_range ?H (MapRef 0))" by code_simp
  have sp: "String_spec Quote_ascii (map_range ?H (MapRef 0))
              = ''http_requests_total{code=\"200\", method=\"GET\"}''" by code_simp
  have ok2: "heap_ok [[(''__name__'', ''up'')]]" by code_simp
  have v2: "valid_ref [[(''__name__'', ''up'')]] (MapRef 0)" by code_simp
  have l2: "labels [[(''__name__'', ''up'')]] (MapRef 0) MetricNameLabel = Some ''up''" by code_simp
  have o2: "other_labels (map_range [[(''__name__'', ''up'')]] (MapRef 0)) = []" by code_simp
  have ok3: "heap_ok []" by code_simp
  have v3: "valid_ref [] NilMap" by code_simp
  have r3: "map_range [] NilMap = []" by code_simp
  show ?thesis
    using ok v pf sp
      C3_String_rendering [OF ok v, of Quote_ascii]
      C3_String_rendering [OF ok2 v2, of Quote_ascii] l2 o2
      C3_String_rendering [OF ok3 v3, of Quote_ascii] r3
    by (simp add: map_range_def)
qed

theorem C3_sorted_by_label_name_counterexample:
  "Metric_String Quote_ascii [[(''a'', ''x''), (''a1'', ''x'')]] (MapRef 0)
     = Inr ''{a1=\"x\", a=\"x\"}''
   \<and> String_spec Quote_ascii (map_range [[(''a'', ''x''), (''a1'', ''x'')]] (MapRef 0))
     = ''{a=\"x\", a1=\"x\"}''
   \<and> Metric_String Quote_ascii [[(''a'', ''x''), (''a1'', ''x'')]] (MapRef 0)
     \<noteq> Inr (String_spec Quote_ascii (map_range [[(''a'', ''x''), (''a1'', ''x'')]] (MapRef 0)))"
  by code_simp

text \<open>
  Claim C5. \<open>String()\<close> is deterministic: two Metrics that are \<open>Equal\<close> render to
  the same string, and a Metric renders to the same string in whatever order the
  iteration over its map yields the entries.
\<close>

theorem C5_String_deterministic:
  assumes ok: "heap_ok h" and v1: "valid_ref h m1" and v2: "valid_ref h m2"
  shows "(Metric_Equal h m1 m2 \<longrightarrow> Metric_String q h m1 = Metric_String q h m2)
       \<and> (\<forall>h'. mset (map_range h' m1) = mset (map_range h m1)
              \<longrightarrow> Metric_String q h' m1 = Metric_String q h m1)"
proof -
  have d1: "distinct (map fst (map_range h m1))" using heap_ok_range [OF ok v1] .
  have d2: "distinct (map fst (map_range h m2))" using heap_ok_range [OF ok v2] .
  have a: "Metric_Equal h m1 m2 \<longrightarrow> Metric_String q h m1 = Metric_String q h m2"
  proof
    assume "Metric_Equal h m1 m2"
    then have "map_of (map_range h m1) = map_of (map_range h m2)"
      by (simp add: Metric_Equal_def LabelSet_Equal_iff labels_def)
    then have "mset (map_range h m1) = mset (map_range h m2)"
      using mset_eq_of_map_of_eq [OF d1 d2] by simp
    then show "Metric_String q h m1 = Metric_String q h m2"
      using String_of_mset_eq [OF d1 d2] by simp
  qed
  have b: "mset (map_range h' m1) = mset (map_range h m1)
             \<longrightarrow> Metric_String q h' m1 = Metric_String q h m1" for h'
  proof
    assume eq: "mset (map_range h' m1) = mset (map_range h m1)"
    have d': "distinct (map fst (map_range h' m1))"
      using map_of_eq_of_mset_eq [OF d1 eq] by simp
    show "Metric_String q h' m1 = Metric_String q h m1"
      using String_of_mset_eq [OF d' d1 eq] .
  qed
  show ?thesis using a b by blast
qed

theorem C5_String_deterministic_witness:
  "heap_ok [[(''a'', ''1''), (''b'', ''2'')], [(''b'', ''2''), (''a'', ''1'')]]
   \<and> valid_ref [[(''a'', ''1''), (''b'', ''2'')], [(''b'', ''2''), (''a'', ''1'')]] (MapRef 0)
   \<and> valid_ref [[(''a'', ''1''), (''b'', ''2'')], [(''b'', ''2''), (''a'', ''1'')]] (MapRef 1)
   \<and> Metric_Equal [[(''a'', ''1''), (''b'', ''2'')], [(''b'', ''2''), (''a'', ''1'')]]
        (MapRef 0) (MapRef 1)
   \<and> Metric_String Quote_ascii
        [[(''a'', ''1''), (''b'', ''2'')], [(''b'', ''2''), (''a'', ''1'')]] (MapRef 0)
     = Metric_String Quote_ascii
        [[(''a'', ''1''), (''b'', ''2'')], [(''b'', ''2''), (''a'', ''1'')]] (MapRef 1)"
proof -
  let ?H = "[[(''a'', ''1''), (''b'', ''2'')], [(''b'', ''2''), (''a'', ''1'')]]"
  have ok: "heap_ok ?H" by code_simp
  have v1: "valid_ref ?H (MapRef 0)" by code_simp
  have v2: "valid_ref ?H (MapRef 1)" by code_simp
  have e: "Metric_Equal ?H (MapRef 0) (MapRef 1)" by code_simp
  show ?thesis
    using ok v1 v2 e C5_String_deterministic [OF ok v1 v2, of Quote_ascii] by blast
qed

text \<open>
  Claim C10, as amended. A Metric whose only label is the metric-name label with the
  empty string as value renders as the empty string. \<open>String()\<close> returns
  \<^verbatim>\<open>{}\<close> exactly when the label set is empty or the only label is the metric-name
  label with the value \<^verbatim>\<open>{}\<close>. The claim as written (only for the empty label set)
  fails for that second Metric.
\<close>

theorem C10_name_only_rendering:
  assumes ok: "heap_ok h" and v: "valid_ref h m"
  shows "(map_range h m = [(MetricNameLabel, [])] \<longrightarrow> Metric_String q h m = Inr [])
       \<and> (Metric_String q h m = Inr ''{}'' \<longleftrightarrow>
            map_range h m = [] \<or> map_range h m = [(MetricNameLabel, ''{}'')])"
proof (rule conjI)
  show "map_range h m = [(MetricNameLabel, [])] \<longrightarrow> Metric_String q h m = Inr []"
    by (simp add: Metric_String_cases name_of_def)
  show "Metric_String q h m = Inr ''{}'' \<longleftrightarrow>
            map_range h m = [] \<or> map_range h m = [(MetricNameLabel, ''{}'')]"
    using heap_ok_range [OF ok v] by (rule String_braces_iff)
qed

theorem C10_name_only_rendering_witness:
  "heap_ok [[(''__name__'', '''')]] \<and> valid_ref [[(''__name__'', '''')]] (MapRef 0)
   \<and> map_range [[(''__name__'', '''')]] (MapRef 0) = [(MetricNameLabel, [])]
   \<and> Metric_String Quote_ascii [[(''__name__'', '''')]] (MapRef 0) = Inr []
   \<and> Metric_String Quote_ascii [[(''__name__'', '''')]] (MapRef 0) \<noteq> Inr ''{}''"
proof -
  let ?H = "[[(''__name__'', '''')]]"
  have ok: "heap_ok ?H" by code_simp
  have v: "valid_ref ?H (MapRef 0)" by code_simp
  have r: "map_range ?H (MapRef 0) = [(MetricNameLabel, [])]" by code_simp
  show ?thesis
    using ok v r C10_name_only_rendering [OF ok v, of Quote_ascii] by simp
qed

theorem C10_braces_only_when_empty_counterexample:
  "Metric_String Quote_ascii [[(''__name__'', ''{}'')]] (MapRef 0) = Inr ''{}''
   \<and> map_range [[(''__name__'', ''{}'')]] (MapRef 0) \<noteq> []"
  by code_simp

section \<open>Runs of operations on one holder\<close>

lemma Set_owned:
  "Copied m \<Longrightarrow> COWMetric_Set h m ln lv =
     (case map_assign h (Metric m) ln lv of Inl e \<Rightarrow> Inl e | Inr h' \<Rightarrow> Inr (h', m))"
  by (simp add: COWMetric_Set_def doCOW_owned)

lemma String_step: "COWMetric_apply q enc h m OpString = Inr (h, m)"
  by (simp add: COWMetric_String_def Metric_String_cases)

lemma MarshalJSON_step: "COWMetric_apply q enc h m OpMarshalJSON = Inr (h, m)"
  by (cases "Metric m") (simp_all add: COWMetric_MarshalJSON_def json_Marshal_def)

lemma apply_owned_holder:
  assumes c: "Copied m" and r: "COWMetric_apply q enc h m op = Inr (h', m')"
  shows "m' = m"
proof (cases op)
  case (OpSet ln lv)
  then show ?thesis using r by (auto simp: Set_owned [OF c] split: sum.splits)
next
  case (OpDel ln)
  then show ?thesis using r by (simp add: Del_owned [OF c])
next
  case OpString
  show ?thesis using r unfolding OpString String_step by simp
next
  case OpMarshalJSON
  show ?thesis using r unfolding OpMarshalJSON MarshalJSON_step by simp
qed

lemma run_owned_holder:
  "Copied m \<Longrightarrow> COWMetric_run q enc h m ops = Inr (h', m') \<Longrightarrow> m' = m"
proof (induction ops arbitrary: h)
  case Nil
  then show ?case by simp
next
  case (Cons op ops)
  from Cons.prems(2) obtain h1 m1 where
    s1: "COWMetric_apply q enc h m op = Inr (h1, m1)"
    and s2: "COWMetric_run q enc h1 m1 ops = Inr (h', m')"
    by (auto split: sum.splits)
  have m1: "m1 = m" using apply_owned_holder [OF Cons.prems(1) s1] .
  show ?case using Cons.IH [OF Cons.prems(1)] s2 by (simp add: m1)
qed

lemma labels_update_same:
  "a < length h \<Longrightarrow> labels (h[a := c]) (MapRef a) = map_of c"
  by (simp add: labels_def map_range_def)

lemma apply_owned:
  assumes c: "Copied m" and r: "Metric m = MapRef a" and a: "a < length h"
  shows "\<exists>h'. COWMetric_apply q enc h m op = Inr (h', m) \<and> length h' = length h
           \<and> labels h' (MapRef a) = op_effect (labels h (MapRef a)) op"
proof (cases op)
  case (OpSet ln lv)
  have "labels (h[a := AList.update ln lv (h ! a)]) (MapRef a)
          = (labels h (MapRef a))(ln \<mapsto> lv)"
    by (simp add: labels_update_same [OF a] update_conv') (simp add: labels_def map_range_def)
  then show ?thesis using OpSet by (simp add: Set_owned [OF c] r map_assign_def)
next
  case (OpDel ln)
  have "labels (h[a := AList.delete ln (h ! a)]) (MapRef a)
          = (labels h (MapRef a))(ln := None)"
    by (simp add: labels_update_same [OF a] delete_conv') (simp add: labels_def map_range_def)
  then show ?thesis using OpDel by (simp add: Del_owned [OF c] r map_delete_def)
next
  case OpString
  show ?thesis unfolding OpString String_step by simp
next
  case OpMarshalJSON
  show ?thesis unfolding OpMarshalJSON MarshalJSON_step by simp
qed

lemma run_owned:
  assumes c: "Copied m" and r: "Metric m = MapRef a"
  shows "a < length h \<Longrightarrow>
         \<exists>h'. COWMetric_run q enc h m ops = Inr (h', m) \<and> length h' = length h
           \<and> labels h' (MapRef a) = foldl op_effect (labels h (MapRef a)) ops"
proof (induction ops arbitrary: h)
  case Nil
  show ?case by simp
next
  case (Cons op ops)
  obtain h1 where s1: "COWMetric_apply q enc h m op = Inr (h1, m)"
    and l1: "length h1 = length h"
    and e1: "labels h1 (MapRef a) = op_effect (labels h (MapRef a)) op"
    using apply_owned [OF c r Cons.prems, of q enc op] by blast
  have a1: "a < length h1" using Cons.prems l1 by simp
  obtain h2 where s2: "COWMetric_run q enc h1 m ops = Inr (h2, m)"
    and l2: "length h2 = length h1"
    and e2: "labels h2 (MapRef a) = foldl op_effect (labels h1 (MapRef a)) ops"
    using Cons.IH [OF a1] by blast
  show ?case using s1 s2 l1 l2 e1 e2 by simp
qed

lemma apply_borrowed:
  assumes ok: "heap_ok h" and b: "\<not> Copied m" and v: "valid_ref h (Metric m)"
    and mu: "is_mutation op"
  shows "\<exists>h1. COWMetric_apply q enc h m op
                 = Inr (h1, m\<lparr>Metric := MapRef (length h), Copied := True\<rparr>)
           \<and> length h1 = length h + 1
           \<and> labels h1 (MapRef (length h)) = op_effect (labels h (Metric m)) op
           \<and> labels h1 (Metric m) = labels h (Metric m)"
proof -
  have d: "distinct (map fst (map_range h (Metric m)))" using heap_ok_range [OF ok v] .
  have f: "fold (\<lambda>kv. AList.update (fst kv) (snd kv)) (map_range h (Metric m)) []
             = map_range h (Metric m)"
    using fold_update_distinct [of "[]" "map_range h (Metric m)"] d by simp
  have fr: "labels (h @ [c]) (Metric m) = labels h (Metric m)" for c
    using v by (rule labels_append)
  have nw: "labels (h @ [c]) (MapRef (length h)) = map_of c" for c
    by (simp add: labels_def map_range_def)
  show ?thesis
  proof (cases op)
    case (OpSet ln lv)
    then show ?thesis
      by (simp add: Set_borrowed [OF b] f fr nw update_conv') (simp add: labels_def)
  next
    case (OpDel ln)
    then show ?thesis
      by (simp add: Del_borrowed [OF b] f fr nw delete_conv') (simp add: labels_def)
  next
    case OpString
    then show ?thesis using mu by simp
  next
    case OpMarshalJSON
    then show ?thesis using mu by simp
  qed
qed

text \<open>
  Claim C2. On a COWMetric with \<open>Copied\<close> false, the first \<open>Set\<close> or \<open>Del\<close> (a
  \<open>Del\<close> of an absent label too) returns normally and allocates exactly one map
  object, the clone: the store grows by one object, the holder now wraps that fresh
  object, \<open>Copied\<close> is true, the clone holds the labels of the Metric wrapped before
  with the edit applied, and that Metric keeps its labels. Every later run of
  operations on the holder returns normally, allocates nothing, leaves the holder
  wrapping the same object, and applies its edits to that object in place. Only
  \<open>Clone\<close> allocates, so the size of the store counts the clones.
\<close>

theorem C2_first_mutation_clones_once:
  assumes ok: "heap_ok h" and b: "\<not> Copied m" and v: "valid_ref h (Metric m)"
    and mu: "is_mutation op"
  shows "\<exists>h1 m1. COWMetric_apply q enc h m op = Inr (h1, m1)
           \<and> length h1 = length h + 1
           \<and> Metric m1 = MapRef (length h) \<and> Copied m1
           \<and> labels h1 (Metric m1) = op_effect (labels h (Metric m)) op
           \<and> labels h1 (Metric m) = labels h (Metric m)
           \<and> (\<forall>ops. \<exists>h2. COWMetric_run q enc h1 m1 ops = Inr (h2, m1)
                  \<and> length h2 = length h1
                  \<and> labels h2 (Metric m1) = foldl op_effect (labels h1 (Metric m1)) ops)"
proof -
  define m1 where "m1 = m\<lparr>Metric := MapRef (length h), Copied := True\<rparr>"
  obtain h1 where s: "COWMetric_apply q enc h m op = Inr (h1, m1)"
    and l: "length h1 = length h + 1"
    and e: "labels h1 (MapRef (length h)) = op_effect (labels h (Metric m)) op"
    and fr: "labels h1 (Metric m) = labels h (Metric m)"
    using apply_borrowed [OF ok b v mu, of q enc] unfolding m1_def by blast
  have c1: "Copied m1" and r1: "Metric m1 = MapRef (length h)" by (simp_all add: m1_def)
  have a1: "length h < length h1" using l by simp
  have later: "\<exists>h2. COWMetric_run q enc h1 m1 ops = Inr (h2, m1) \<and> length h2 = length h1
                  \<and> labels h2 (Metric m1) = foldl op_effect (labels h1 (Metric m1)) ops" for ops
    using run_owned [OF c1 r1 a1, of q enc ops] by (simp add: r1)
  show ?thesis using s l c1 r1 e fr later by (simp add: r1)
qed

theorem C2_first_mutation_clones_once_witness:
  "heap_ok [[(''job'', ''api'')]] \<and> \<not> Copied \<lparr>Copied = False, Metric = MapRef 0\<rparr>
   \<and> valid_ref [[(''job'', ''api'')]] (Metric \<lparr>Copied = False, Metric = MapRef 0\<rparr>)
   \<and> is_mutation (OpDel ''zone'')
   \<and> (\<exists>h1 m1. COWMetric_apply Quote_ascii json_string_plain [[(''job'', ''api'')]]
                   \<lparr>Copied = False, Metric = MapRef 0\<rparr> (OpDel ''zone'') = Inr (h1, m1)
          \<and> length h1 = 2 \<and> Metric m1 = MapRef 1 \<and> Copied m1
          \<and> (\<forall>ops. \<exists>h2. COWMetric_run Quote_ascii json_string_plain h1 m1 ops = Inr (h2, m1)
                 \<and> length h2 = length h1))"
proof -
  have ok: "heap_ok [[(''job'', ''api'')]]" by code_simp
  have b: "\<not> Copied \<lparr>Copied = False, Metric = MapRef 0\<rparr>" by simp
  have v: "valid_ref [[(''job'', ''api'')]] (Metric \<lparr>Copied = False, Metric = MapRef 0\<rparr>)"
    by (simp add: valid_ref_def)
  have mu: "is_mutation (OpDel ''zone'')" by simp
  obtain h1 m1 where
    "COWMetric_apply Quote_ascii json_string_plain [[(''job'', ''api'')]]
        \<lparr>Copied = False, Metric = MapRef 0\<rparr> (OpDel ''zone'') = Inr (h1, m1)"
    "length h1 = length [[(''job'', ''api'')]] + 1"
    "Metric m1 = MapRef (length [[(''job'', ''api'')]])" "Copied m1"
    "\<forall>ops. \<exists>h2. COWMetric_run Quote_ascii json_string_plain h1 m1 ops = Inr (h2, m1)
                  \<and> length h2 = length h1
                  \<and> labels h2 (Metric m1) = foldl op_effect (labels h1 (Metric m1)) ops"
    using C2_first_mutation_clones_once [OF ok b v mu, of Quote_ascii json_string_plain]
    by blast
  then have "\<exists>h1 m1. COWMetric_apply Quote_ascii json_string_plain [[(''job'', ''api'')]]
                   \<lparr>Copied = False, Metric = MapRef 0\<rparr> (OpDel ''zone'') = Inr (h1, m1)
          \<and> length h1 = 2 \<and> Metric m1 = MapRef 1 \<and> Copied m1
          \<and> (\<forall>ops. \<exists>h2. COWMetric_run Quote_ascii json_string_plain h1 m1 ops = Inr (h2, m1)
                 \<and> length h2 = length h1)"
    by (intro exI [of _ h1] exI [of _ m1]) auto
  then show ?thesis using ok b v mu by blast
qed

text \<open>
  Claim C6. For every COWMetric with \<open>Copied\<close> true and every sequence of the
  operations \<open>Set\<close>, \<open>Del\<close>, \<open>String\<close> and \<open>MarshalJSON\<close>, \<open>Copied\<close> is true
  after the sequence whenever the sequence returns; and it does return when the
  holder wraps a non-nil Metric. (A \<open>Set\<close> on an owned holder of the \<^verbatim>\<open>nil\<close> Metric
  panics, and there is no state after it.)
\<close>

theorem C6_Copied_stays_true:
  assumes c: "Copied m"
  shows "(\<forall>h' m'. COWMetric_run q enc h m ops = Inr (h', m') \<longrightarrow> Copied m')
       \<and> (\<forall>a. Metric m = MapRef a \<and> a < length h \<longrightarrow>
             (\<exists>h' m'. COWMetric_run q enc h m ops = Inr (h', m') \<and> Copied m'))"
proof (rule conjI)
  show "\<forall>h' m'. COWMetric_run q enc h m ops = Inr (h', m') \<longrightarrow> Copied m'"
    using run_owned_holder [OF c] c by blast
  show "\<forall>a. Metric m = MapRef a \<and> a < length h \<longrightarrow>
             (\<exists>h' m'. COWMetric_run q enc h m ops = Inr (h', m') \<and> Copied m')"
    using run_owned [OF c] c by blast
qed

theorem C6_Copied_stays_true_witness:
  "Copied \<lparr>Copied = True, Metric = MapRef 0\<rparr>
   \<and> Metric \<lparr>Copied = True, Metric = MapRef 0\<rparr> = MapRef 0 \<and> (0::nat) < length [[(''job'', ''api'')]]
   \<and> (\<exists>h' m'. COWMetric_run Quote_ascii json_string_plain [[(''job'', ''api'')]]
                   \<lparr>Copied = True, Metric = MapRef 0\<rparr>
                   [OpSet ''a'' ''b'', OpString, OpDel ''job'', OpMarshalJSON] = Inr (h', m')
               \<and> Copied m')"
proof -
  have c: "Copied \<lparr>Copied = True, Metric = MapRef 0\<rparr>" by simp
  show ?thesis
    using c C6_Copied_stays_true [OF c, of Quote_ascii json_string_plain "[[(''job'', ''api'')]]"
        "[OpSet ''a'' ''b'', OpString, OpDel ''job'', OpMarshalJSON]"]
    by simp
qed

section \<open>Serialization\<close>

lemma sort_key_fst_eq:
  assumes dx: "distinct (map fst xs)" and eq: "mset ys = mset xs"
  shows "sort_key fst ys = sort_key fst xs"
proof -
  let ?zs = "sort_key fst ys"
  have m: "mset ?zs = mset xs" using eq by simp
  have dz: "distinct (map fst ?zs)" using map_of_eq_of_mset_eq [OF dx m] by simp
  have srt: "sorted (map fst ?zs)" by simp
  have flt: "filter (\<lambda>x. fst k = fst x) ?zs = filter (\<lambda>x. fst k = fst x) xs"
    if "k \<in> set ?zs" for k
  proof -
    have "set ?zs = set xs" using m by (rule mset_eq_setD)
    with that have kx: "k \<in> set xs" by simp
    show ?thesis
      using filter_key_distinct [OF dz that] filter_key_distinct [OF dx kx] by simp
  qed
  show ?thesis
    using properties_for_sort_key [of ?zs xs fst, OF m flt srt] by simp
qed

lemma json_Marshal_eq:
  assumes d1: "distinct (map fst (map_range h (MapRef a)))"
    and d2: "distinct (map fst (map_range h (MapRef b)))"
    and eq: "labels h (MapRef a) = labels h (MapRef b)"
  shows "json_Marshal enc h (MapRef a) = json_Marshal enc h (MapRef b)"
proof -
  have "map_of (map_range h (MapRef a)) = map_of (map_range h (MapRef b))"
    using eq unfolding labels_def .
  then have "mset (map_range h (MapRef a)) = mset (map_range h (MapRef b))"
    by (rule mset_eq_of_map_of_eq [OF d1 d2])
  then have s: "sort_key fst (map_range h (MapRef a)) = sort_key fst (map_range h (MapRef b))"
    by (rule sort_key_fst_eq [OF d2])
  show ?thesis unfolding json_Marshal_def mapref.case s ..
qed

text \<open>
  Claim C8, as amended. For every pair of COWMetrics whose wrapped Metrics are
  \<open>Equal\<close> and are both \<^verbatim>\<open>nil\<close> or both non-nil, \<open>MarshalJSON\<close> returns the same
  bytes, whatever the two \<open>Copied\<close> flags are; it reports no error, its result does
  not change when the flag of the holder is changed, and it leaves the store and the
  holder as they were. The claim as written fails for a \<^verbatim>\<open>nil\<close> Metric against an
  empty non-nil one: a borrowed holder of \<^verbatim>\<open>nil\<close> serializes as \<^verbatim>\<open>null\<close> and, after
  a \<open>Del\<close> that removes nothing, as \<^verbatim>\<open>{}\<close>.
\<close>

theorem C8_MarshalJSON_ignores_Copied:
  assumes ok: "heap_ok h"
    and v1: "valid_ref h (Metric c1)" and v2: "valid_ref h (Metric c2)"
    and eq: "Metric_Equal h (Metric c1) (Metric c2)"
    and nil: "(Metric c1 = NilMap) = (Metric c2 = NilMap)"
  shows "COWMetric_MarshalJSON enc h c1 = COWMetric_MarshalJSON enc h c2
       \<and> (\<exists>bs. COWMetric_MarshalJSON enc h c1 = Inr bs)
       \<and> (\<forall>f. COWMetric_MarshalJSON enc h (c1\<lparr>Copied := f\<rparr>) = COWMetric_MarshalJSON enc h c1)
       \<and> COWMetric_apply q enc h c1 OpMarshalJSON = Inr (h, c1)"
proof -
  have same: "json_Marshal enc h (Metric c1) = json_Marshal enc h (Metric c2)"
  proof (cases "Metric c1")
    case NilMap
    then show ?thesis using nil by simp
  next
    case (MapRef a)
    then obtain b where b: "Metric c2 = MapRef b" using nil by (cases "Metric c2") auto
    have d1: "distinct (map fst (map_range h (MapRef a)))"
      using heap_ok_range [OF ok v1] by (simp add: MapRef)
    have d2: "distinct (map fst (map_range h (MapRef b)))"
      using heap_ok_range [OF ok v2] by (simp add: b)
    have "labels h (MapRef a) = labels h (MapRef b)"
      using eq by (simp add: Metric_Equal_def LabelSet_Equal_iff MapRef b)
    then have "json_Marshal enc h (MapRef a) = json_Marshal enc h (MapRef b)"
      by (rule json_Marshal_eq [OF d1 d2])
    then show ?thesis unfolding MapRef b .
  qed
  have tot: "\<exists>bs. json_Marshal enc h (Metric c1) = Inr bs"
    by (cases "Metric c1") (simp_all add: json_Marshal_def)
  have flag: "\<forall>f. COWMetric_MarshalJSON enc h (c1\<lparr>Copied := f\<rparr>)
                 = COWMetric_MarshalJSON enc h c1"
    by (simp add: COWMetric_MarshalJSON_def)
  have step: "COWMetric_apply q enc h c1 OpMarshalJSON = Inr (h, c1)"
    by (rule MarshalJSON_step)
  have same': "COWMetric_MarshalJSON enc h c1 = COWMetric_MarshalJSON enc h c2"
    using same by (simp add: COWMetric_MarshalJSON_def)
  have tot': "\<exists>bs. COWMetric_MarshalJSON enc h c1 = Inr bs"
    using tot by (simp add: COWMetric_MarshalJSON_def)
  show ?thesis using same' tot' flag step by (intro conjI)
qed

theorem C8_MarshalJSON_ignores_Copied_witness:
  "heap_ok [[(''b'', ''2''), (''a'', ''1'')], [(''a'', ''1''), (''b'', ''2'')]]
   \<and> Metric_Equal [[(''b'', ''2''), (''a'', ''1'')], [(''a'', ''1''), (''b'', ''2'')]]
        (Metric \<lparr>Copied = False, Metric = MapRef 0\<rparr>) (Metric \<lparr>Copied = True, Metric = MapRef 1\<rparr>)
   \<and> COWMetric_MarshalJSON json_string_plain
        [[(''b'', ''2''), (''a'', ''1'')], [(''a'', ''1''), (''b'', ''2'')]]
        \<lparr>Copied = False, Metric = MapRef 0\<rparr>
     = COWMetric_MarshalJSON json_string_plain
        [[(''b'', ''2''), (''a'', ''1'')], [(''a'', ''1''), (''b'', ''2'')]]
        \<lparr>Copied = True, Metric = MapRef 1\<rparr>"
proof -
  let ?H = "[[(''b'', ''2''), (''a'', ''1'')], [(''a'', ''1''), (''b'', ''2'')]]"
  let ?c1 = "\<lparr>Copied = False, Metric = MapRef 0\<rparr>"
  let ?c2 = "\<lparr>Copied = True, Metric = MapRef 1\<rparr>"
  have ok: "heap_ok ?H" by code_simp
  have v1: "valid_ref ?H (Metric ?c1)" by (simp add: valid_ref_def)
  have v2: "valid_ref ?H (Metric ?c2)" by (simp add: valid_ref_def)
  have eq: "Metric_Equal ?H (Metric ?c1) (Metric ?c2)"
    by (simp add: Metric_Equal_def LabelSet_Equal_def map_lookup_def map_range_def)
  have nil: "(Metric ?c1 = NilMap) = (Metric ?c2 = NilMap)" by simp
  show ?thesis
    using ok eq C8_MarshalJSON_ignores_Copied [OF ok v1 v2 eq nil, of json_string_plain]
    by blast
qed

theorem C8_nil_versus_empty_counterexample:
  "COWMetric_Del [] \<lparr>Copied = False, Metric = NilMap\<rparr> ''a''
     = Inr ([[]], \<lparr>Copied = True, Metric = MapRef 0\<rparr>)
   \<and> Metric_Equal [[]] (Metric \<lparr>Copied = False, Metric = NilMap\<rparr>)
        (Metric \<lparr>Copied = True, Metric = MapRef 0\<rparr>)
   \<and> COWMetric_MarshalJSON json_string_plain [[]] \<lparr>Copied = False, Metric = NilMap\<rparr>
        = Inr ''null''
   \<and> COWMetric_MarshalJSON json_string_plain [[]] \<lparr>Copied = True, Metric = MapRef 0\<rparr>
        = Inr ''{}''"
  by (simp add: COWMetric_Del_def COWMetric_doCOW_def Metric_Clone_def map_make_def
        map_range_def map_delete_def Metric_Equal_def LabelSet_Equal_def
        COWMetric_MarshalJSON_def json_Marshal_def)

end
